theory Spec2Isabelle
  imports Complex_Main "HOL-Library.Multiset"
begin

section \<open>Support and resistance detection (src/utils/indicators.py)\<close>

text \<open>
  The development embeds the support/resistance pipeline of
  \<^verbatim>\<open>src/utils/indicators.py\<close>: \<^verbatim>\<open>group_values_nearest\<close>,
  \<^verbatim>\<open>_peaks_detection\<close> and \<^verbatim>\<open>_get_support_resistances\<close> with its two
  public wrappers. Numbers are exact: a value is an element of an ordered ring (the
  grouper) or of an ordered field with a floor function (peak detection, the mean), so
  the binary rounding of floating point and NaN are outside the model.
\<close>

subsection \<open>The proximity grouper\<close>

text \<open>
  \<^verbatim>\<open>
  def group_values_nearest(values, closest=2):
      values.sort()
      il = []
      ol = []
      for k, v in enumerate(values):
          if k <= 0:
              continue
          if abs(values[k] - values[k - 1]) < closest:
              if values[k - 1] not in il:
                  il.append(values[k - 1])
              if values[k] not in il:
                  il.append(values[k])
          else:
              ol.append(list(il))
              il = []
      ol.append(list(il))
      return ol
  \<close>
  The two local lists are the loop state. \<^verbatim>\<open>values.sort()\<close> sorts the list object
  the caller passed, in place and ascending, so the model returns the contents of that
  object after the call next to the returned buckets.
\<close>

record 'a group_state =
  il :: "'a list"
  ol :: "'a list list"

definition append_if_absent :: "'a \<Rightarrow> 'a list \<Rightarrow> 'a list" where
  \<comment> \<open>\<^verbatim>\<open>if x not in il: il.append(x)\<close>\<close>
  "append_if_absent x xs = (if x \<notin> set xs then xs @ [x] else xs)"

definition group_step ::
  "('a::linordered_idom) list \<Rightarrow> 'a \<Rightarrow> nat \<Rightarrow> 'a group_state \<Rightarrow> 'a group_state" where
  \<comment> \<open>One iteration of the loop body at index \<open>k\<close>; \<open>k\<close> is below the length of \<open>values\<close>.\<close>
  "group_step values closest k s =
     (if k \<le> 0 then s
      else if \<bar>values ! k - values ! (k - 1)\<bar> < closest then
        s\<lparr>il := append_if_absent (values ! k) (append_if_absent (values ! (k - 1)) (il s))\<rparr>
      else \<lparr>il = [], ol = ol s @ [il s]\<rparr>)"

definition group_loop ::
  "('a::linordered_idom) list \<Rightarrow> 'a \<Rightarrow> nat list \<Rightarrow> 'a group_state \<Rightarrow> 'a group_state" where
  \<comment> \<open>The \<^verbatim>\<open>for\<close> loop over the indices \<open>ks\<close>, in order.\<close>
  "group_loop values closest ks s = fold (group_step values closest) ks s"

definition group_values_nearest ::
  "('a::linordered_idom) list \<Rightarrow> 'a \<Rightarrow> 'a list \<times> 'a list list" where
  \<comment> \<open>First component: the caller's list after the call. Second component: the
      returned list of buckets.\<close>
  "group_values_nearest values closest =
     (let sorted_values = sort values;
          s = group_loop sorted_values closest [0..<length sorted_values] \<lparr>il = [], ol = []\<rparr>
      in (sorted_values, ol s @ [il s]))"

definition far_transitions :: "('a::linordered_idom) list \<Rightarrow> 'a \<Rightarrow> nat list" where
  \<comment> \<open>The indices \<open>k \<ge> 1\<close> of the sorted input whose value is at least \<open>closest\<close>
      away from its predecessor.\<close>
  "far_transitions values closest =
     filter (\<lambda>k. closest \<le> \<bar>sort values ! k - sort values ! (k - 1)\<bar>) [1..<length values]"

definition near_members :: "('a::linordered_idom) list \<Rightarrow> 'a \<Rightarrow> 'a list" where
  \<comment> \<open>The values of the sorted input that take part in a near pair: both members of
      every adjacent pair that is less than \<open>closest\<close> apart.\<close>
  "near_members values closest =
     (let s = sort values
      in concat (map (\<lambda>k. if \<bar>s ! k - s ! (k - 1)\<bar> < closest then [s ! (k - 1), s ! k] else [])
                     [1..<length s]))"

text \<open>Predicates on the loop state, used as loop invariants.\<close>

definition bucket_values :: "'a group_state \<Rightarrow> 'a set" where
  "bucket_values s = set (concat (ol s)) \<union> set (il s)"

definition buckets_distinct :: "'a group_state \<Rightarrow> bool" where
  "buckets_distinct s \<longleftrightarrow> distinct (il s) \<and> (\<forall>b \<in> set (ol s). distinct b)"

definition buckets_empty :: "'a group_state \<Rightarrow> bool" where
  "buckets_empty s \<longleftrightarrow> il s = [] \<and> (\<forall>b \<in> set (ol s). b = [])"

definition scan_inv :: "('a::linordered_idom) list \<Rightarrow> 'a \<Rightarrow> nat \<Rightarrow> 'a group_state \<Rightarrow> bool" where
  \<comment> \<open>The state before index \<open>n\<close> is visited: closed buckets lie strictly below the
      previous value, the open bucket does not exceed it, and no value is held twice.\<close>
  "scan_inv vs c n s \<longleftrightarrow>
     distinct (concat (ol s) @ il s) \<and>
     (\<forall>x \<in> set (concat (ol s)). x < vs ! (n - 1)) \<and>
     (\<forall>x \<in> set (il s). x \<le> vs ! (n - 1)) \<and>
     (bucket_values s \<noteq> {} \<longrightarrow> 0 < c)"

subsection \<open>Peak detection\<close>

datatype py_error = ValueError | StatisticsError

text \<open>
  \<^verbatim>\<open>_peaks_detection\<close> returns the array of peak positions when \<^verbatim>\<open>rounded\<close> is
  falsy and a list of numbers otherwise.
\<close>

datatype 'a peaks = Indices "nat list" | Values "'a list"

text \<open>
  Modelled from the spec: \<^verbatim>\<open>scipy.signal.find_peaks\<close> is a library function whose
  code is not among the sources. Section 4.1 of the specification describes it as a
  local-maximum scan that reports one position per flat plateau and then drops the
  candidates below the requested height. The scan below follows the library's loop:
  \<^verbatim>\<open>
  i = 1; i_max = len(x) - 1
  while i < i_max:
      if x[i - 1] < x[i]:
          i_ahead = i + 1
          while i_ahead < i_max and x[i_ahead] == x[i]:
              i_ahead += 1
          if x[i_ahead] < x[i]:
              midpoints.append((i + i_ahead - 1) // 2)
              i = i_ahead
      i += 1
  \<close>
  and the \<^verbatim>\<open>height\<close> argument keeps the peaks \<open>p\<close> with \<open>height \<le> x[p]\<close>. On an
  empty sequence \<open>i_max\<close> is \<open>-1\<close> in the library and \<open>0\<close> here; the loop is not
  entered either way.
\<close>

function skip_plateau :: "'a list \<Rightarrow> nat \<Rightarrow> nat \<Rightarrow> nat" where
  "skip_plateau x i i_ahead =
     (if i_ahead < length x - 1 \<and> x ! i_ahead = x ! i
      then skip_plateau x i (i_ahead + 1) else i_ahead)"
  by pat_completeness auto
termination
  by (relation "measure (\<lambda>(x, i, i_ahead). length x - i_ahead)") auto

declare skip_plateau.simps [simp del]

function local_maxima_loop :: "('a::linorder) list \<Rightarrow> nat \<Rightarrow> nat list \<Rightarrow> nat list" where
  "local_maxima_loop x i midpoints =
     (if i < length x - 1 then
        (if x ! (i - 1) < x ! i then
           (let i_ahead = skip_plateau x i (i + 1)
            in if x ! i_ahead < x ! i
               then local_maxima_loop x (i_ahead + 1) (midpoints @ [(i + (i_ahead - 1)) div 2])
               else local_maxima_loop x (i + 1) midpoints)
         else local_maxima_loop x (i + 1) midpoints)
      else midpoints)"
  by pat_completeness auto
termination
proof (relation "measure (\<lambda>(x, i, midpoints). length x - i)")
  show "wf (measure (\<lambda>(x :: 'a list, i, midpoints :: nat list). length x - i))"
    by simp
next
  fix x :: "'a list" and i :: nat and midpoints :: "nat list" and i_ahead :: nat
  assume i: "i < length x - 1" and ahead: "i_ahead = skip_plateau x i (i + 1)"
  have ge: "j \<le> skip_plateau x i j" for j
  proof (induction x i j rule: skip_plateau.induct)
    case (1 x i i_ahead)
    show ?case
    proof (cases "i_ahead < length x - 1 \<and> x ! i_ahead = x ! i")
      case True
      then have "i_ahead + 1 \<le> skip_plateau x i (i_ahead + 1)" using 1 by simp
      then show ?thesis using True skip_plateau.simps[of x i i_ahead] by auto
    next
      case False
      then show ?thesis using skip_plateau.simps[of x i i_ahead] by auto
    qed
  qed
  from ge[of "i + 1"] i ahead
  show "((x, i_ahead + 1, midpoints @ [(i + (i_ahead - 1)) div 2]), (x, i, midpoints))
      \<in> measure (\<lambda>(x, i, midpoints). length x - i)"
    by simp
qed auto

declare local_maxima_loop.simps [simp del]

definition find_peaks :: "('a::linorder) list \<Rightarrow> 'a \<Rightarrow> nat list" where
  "find_peaks x height = filter (\<lambda>p. height \<le> x ! p) (local_maxima_loop x 1 [])"



fun py_min :: "('a::linorder) list \<Rightarrow> py_error + 'a" where
  \<comment> \<open>The builtin \<^verbatim>\<open>min\<close>: \<^verbatim>\<open>ValueError\<close> on an empty sequence.\<close>
  "py_min [] = Inl ValueError"
| "py_min (v # vs) = Inr (fold min vs v)"

definition round_half_even :: "('a::floor_ceiling) \<Rightarrow> int" where
  \<comment> \<open>Rounding to the nearest integer, a tie going to the even neighbour.\<close>
  "round_half_even x =
     (let f = \<lfloor>x\<rfloor>; r = x - of_int f
      in if r < 1 / 2 then f else if 1 / 2 < r then f + 1 else if even f then f else f + 1)"

definition py_round :: "('a::floor_ceiling) \<Rightarrow> int \<Rightarrow> 'a" where
  \<comment> \<open>\<^verbatim>\<open>round(x, ndigits)\<close> on exact numbers; a negative \<open>ndigits\<close> rounds to tens,
      hundreds and so on.\<close>
  "py_round x ndigits =
     (if 0 \<le> ndigits
      then of_int (round_half_even (x * 10 ^ nat ndigits)) / 10 ^ nat ndigits
      else of_int (round_half_even (x / 10 ^ nat (- ndigits))) * 10 ^ nat (- ndigits))"



definition truthy :: "int option \<Rightarrow> bool" where
  \<comment> \<open>Truth value of the \<^verbatim>\<open>rounded\<close> argument: \<^verbatim>\<open>None\<close> and \<open>0\<close> are falsy.\<close>
  "truthy rounded = (case rounded of None \<Rightarrow> False | Some n \<Rightarrow> n \<noteq> 0)"

definition direction_corrected :: "('a::floor_ceiling) list \<Rightarrow> string \<Rightarrow> 'a list" where
  \<comment> \<open>\<^verbatim>\<open>data = np.copy(values)\<close>, negated when the direction is \<^verbatim>\<open>"down"\<close>.\<close>
  "direction_corrected values direction =
     (if direction = ''down'' then map uminus values else values)"

text \<open>
  \<^verbatim>\<open>
  def _peaks_detection(values, rounded=3, direction="up"):
      data = np.copy(values)
      if direction == "down":
          data = -data
      peaks, _ = signal.find_peaks(data, height=min(data))
      if rounded:
          peaks = [abs(round(data[val], rounded)) for val in peaks]
      return peaks
  \<close>
\<close>

definition peaks_detection ::
  "('a::floor_ceiling) list \<Rightarrow> int option \<Rightarrow> string \<Rightarrow> py_error + 'a peaks" where
  "peaks_detection values rounded direction =
     (let data = direction_corrected values direction
      in case py_min data of
           Inl e \<Rightarrow> Inl e
         | Inr height \<Rightarrow>
             (let peaks = find_peaks data height
              in case rounded of
                   None \<Rightarrow> Inr (Indices peaks)
                 | Some n \<Rightarrow>
                     if n \<noteq> 0 then Inr (Values (map (\<lambda>val. \<bar>py_round (data ! val) n\<bar>) peaks))
                     else Inr (Indices peaks)))"

subsection \<open>The aggregator\<close>

text \<open>
  A numpy array holds elements of one type, and \<^verbatim>\<open>np.copy\<close>, negation, \<^verbatim>\<open>round\<close>
  and \<^verbatim>\<open>abs\<close> keep it: a series of integers (an integer array, or a list of Python
  integers) gives peak values of type \<^verbatim>\<open>np.int64\<close>, any other series gives
  \<^verbatim>\<open>np.float64\<close>. The comparisons, differences and roundings above do not depend on
  the element type; \<^verbatim>\<open>statistics.mean\<close> does, so the aggregator takes the element
  type of its series as an argument. With \<open>Int64\<close> every element of the series is an
  integer.
\<close>

datatype dtype = Int64 | Float64

definition py_int :: "('a::floor_ceiling) \<Rightarrow> int" where
  \<comment> \<open>Conversion of a fraction to an integer type: the fractional part is dropped.\<close>
  "py_int q = (if 0 \<le> q then \<lfloor>q\<rfloor> else \<lceil>q\<rceil>)"

text \<open>
  \<^verbatim>\<open>
  def mean(data):
      T, total, n = _sum(data)
      if n < 1:
          raise StatisticsError('mean requires at least one data point')
      return _convert(total / n, T)
  \<close>
  \<^verbatim>\<open>total / n\<close> is an exact fraction and \<^verbatim>\<open>T\<close> is the type of the elements;
  \<^verbatim>\<open>_convert\<close> returns \<^verbatim>\<open>T(value)\<close>. For \<^verbatim>\<open>np.float64\<close> that is the quotient, for
  \<^verbatim>\<open>np.int64\<close> (which is not a subclass of \<^verbatim>\<open>int\<close>) its integer part.
\<close>

definition mean :: "dtype \<Rightarrow> ('a::floor_ceiling) list \<Rightarrow> py_error + 'a" where
  "mean T data =
     (if data = [] then Inl StatisticsError
      else (let q = sum_list data / of_nat (length data)
            in Inr (case T of Float64 \<Rightarrow> q | Int64 \<Rightarrow> of_int (py_int q))))"

text \<open>
  \<^verbatim>\<open>
  def _get_support_resistances(values, direction, closest=2):
      result = []
      peaks = _peaks_detection(values=values, direction=direction)
      peaks_grouped = group_values_nearest(values=peaks, closest=closest)
      for val in peaks_grouped:
          if not val:
              continue
          if len(val) < 3:
              continue
          result.append(mean(val))
      return result
  \<close>
\<close>

definition aggregate_step ::
  "dtype \<Rightarrow> ('a::floor_ceiling) list \<Rightarrow> 'a list \<Rightarrow> py_error + 'a list" where
  \<comment> \<open>The loop body for the bucket \<open>val\<close>, whose elements have type \<open>T\<close>.\<close>
  "aggregate_step T val result =
     (if val = [] then Inr result
      else if length val < 3 then Inr result
      else case mean T val of Inl e \<Rightarrow> Inl e | Inr m \<Rightarrow> Inr (result @ [m]))"

fun aggregate_loop ::
  "dtype \<Rightarrow> ('a::floor_ceiling) list list \<Rightarrow> 'a list \<Rightarrow> py_error + 'a list" where
  "aggregate_loop T [] result = Inr result"
| "aggregate_loop T (val # rest) result =
     (case aggregate_step T val result of
        Inl e \<Rightarrow> Inl e
      | Inr result' \<Rightarrow> aggregate_loop T rest result')"

definition peak_numbers :: "('a::floor_ceiling) peaks \<Rightarrow> 'a list" where
  \<comment> \<open>What the grouper sees: the values, or the positions read as numbers.\<close>
  "peak_numbers p = (case p of Values vs \<Rightarrow> vs | Indices ks \<Rightarrow> map of_nat ks)"

definition get_support_resistances ::
  "dtype \<Rightarrow> ('a::floor_ceiling) list \<Rightarrow> string \<Rightarrow> 'a \<Rightarrow> py_error + 'a list" where
  \<comment> \<open>\<open>T\<close> is the element type of \<open>values\<close>. \<^verbatim>\<open>_peaks_detection\<close> is called with
      its default \<^verbatim>\<open>rounded=3\<close>, so the peaks are values of type \<open>T\<close>.\<close>
  "get_support_resistances T values direction closest =
     (case peaks_detection values (Some 3) direction of
        Inl e \<Rightarrow> Inl e
      | Inr peaks \<Rightarrow>
          (let peaks_grouped = snd (group_values_nearest (peak_numbers peaks) closest)
           in aggregate_loop T peaks_grouped []))"

definition get_resistances ::
  "dtype \<Rightarrow> ('a::floor_ceiling) list \<Rightarrow> 'a \<Rightarrow> py_error + 'a list" where
  "get_resistances T values closest = get_support_resistances T values ''up'' closest"

definition get_supports ::
  "dtype \<Rightarrow> ('a::floor_ceiling) list \<Rightarrow> 'a \<Rightarrow> py_error + 'a list" where
  "get_supports T values closest = get_support_resistances T values ''down'' closest"

definition arithmetic_mean :: "('a::floor_ceiling) list \<Rightarrow> 'a" where
  \<comment> \<open>The level of a bucket as the specification words it: the sum of the members
      over their number.\<close>
  "arithmetic_mean b = sum_list b / of_nat (length b)"

definition confirmed_levels :: "('a::floor_ceiling) list list \<Rightarrow> 'a list" where
  \<comment> \<open>The specification's aggregation: the means of the buckets with at least three
      members, in bucket order.\<close>
  "confirmed_levels buckets = map arithmetic_mean (filter (\<lambda>b. 3 \<le> length b) buckets)"

definition bucket_level :: "dtype \<Rightarrow> ('a::floor_ceiling) list \<Rightarrow> 'a" where
  \<comment> \<open>What the aggregator appends for a bucket of three or more elements of type \<open>T\<close>.\<close>
  "bucket_level T b =
     (case T of Float64 \<Rightarrow> arithmetic_mean b | Int64 \<Rightarrow> of_int (py_int (arithmetic_mean b)))"

section \<open>Properties of the grouper\<close>

lemma group_step_ol_length:
  "length (ol (group_step vs c k s)) =
     length (ol s) + (if 0 < k \<and> c \<le> \<bar>vs ! k - vs ! (k - 1)\<bar> then 1 else 0)"
  by (simp add: group_step_def not_less)

lemma group_loop_ol_length:
  "length (ol (group_loop vs c ks s)) =
     length (ol s) + length (filter (\<lambda>k. 0 < k \<and> c \<le> \<bar>vs ! k - vs ! (k - 1)\<bar>) ks)"
  unfolding group_loop_def
  by (induction ks arbitrary: s) (simp_all add: group_step_ol_length)

lemma filter_skip_zero:
  "filter (\<lambda>k. 0 < k \<and> P k) [0..<n] = filter P [1..<n]"
proof (cases n)
  case 0
  then show ?thesis by simp
next
  case (Suc m)
  have "[0..<Suc m] = 0 # [1..<Suc m]"
    by (simp add: upt_conv_Cons del: upt_Suc)
  moreover have "filter (\<lambda>k. 0 < k \<and> P k) [1..<Suc m] = filter P [1..<Suc m]"
    by (rule filter_cong) auto
  ultimately show ?thesis using Suc by (simp del: upt_Suc)
qed

lemma group_values_nearest_length:
  "length (snd (group_values_nearest xs c)) = Suc (length (far_transitions xs c))"
  by (simp add: group_values_nearest_def Let_def group_loop_ol_length filter_skip_zero
      far_transitions_def)

lemma filter_length_mono:
  "(\<And>x. x \<in> set xs \<Longrightarrow> P x \<Longrightarrow> Q x) \<Longrightarrow> length (filter P xs) \<le> length (filter Q xs)"
proof (induction xs)
  case Nil
  then show ?case by simp
next
  case (Cons a xs)
  then have "length (filter P xs) \<le> length (filter Q xs)" by simp
  moreover have "P a \<Longrightarrow> Q a" using Cons.prems by simp
  ultimately show ?case by auto
qed

lemma far_transitions_antimono:
  "t1 \<le> t2 \<Longrightarrow> length (far_transitions xs t2) \<le> length (far_transitions xs t1)"
  unfolding far_transitions_def
  by (rule filter_length_mono) simp

lemma append_if_absent_distinct: "distinct xs \<Longrightarrow> distinct (append_if_absent x xs)"
  by (simp add: append_if_absent_def)

lemma append_if_absent_set: "set (append_if_absent x xs) = insert x (set xs)"
  by (auto simp: append_if_absent_def)

lemma group_step_distinct: "buckets_distinct s \<Longrightarrow> buckets_distinct (group_step vs c k s)"
  by (auto simp: buckets_distinct_def group_step_def append_if_absent_distinct)

lemma group_loop_distinct: "buckets_distinct s \<Longrightarrow> buckets_distinct (group_loop vs c ks s)"
  unfolding group_loop_def
  by (induction ks arbitrary: s) (simp_all add: group_step_distinct)

lemma group_values_nearest_distinct:
  "\<forall>b \<in> set (snd (group_values_nearest xs c)). distinct b"
proof -
  have "buckets_distinct (group_loop (sort xs) c [0..<length xs] \<lparr>il = [], ol = []\<rparr>)"
    by (rule group_loop_distinct) (simp add: buckets_distinct_def)
  then show ?thesis
    by (auto simp: group_values_nearest_def Let_def buckets_distinct_def)
qed

lemma group_step_values:
  "bucket_values (group_step vs c k s) =
     bucket_values s \<union>
     (if 0 < k \<and> \<bar>vs ! k - vs ! (k - 1)\<bar> < c then {vs ! (k - 1), vs ! k} else {})"
  by (auto simp: bucket_values_def group_step_def append_if_absent_set)

lemma group_loop_values:
  "bucket_values (group_loop vs c ks s) =
     bucket_values s \<union>
     set (concat (map (\<lambda>k. if 0 < k \<and> \<bar>vs ! k - vs ! (k - 1)\<bar> < c
                              then [vs ! (k - 1), vs ! k] else []) ks))"
  unfolding group_loop_def
proof (induction ks arbitrary: s)
  case Nil
  then show ?case by simp
next
  case (Cons k ks)
  show ?case
    by (auto simp: Cons.IH group_step_values)
qed

lemma concat_map_skip_zero:
  "concat (map (\<lambda>k. if 0 < k \<and> P k then f k else []) [0..<n]) =
   concat (map (\<lambda>k. if P k then f k else []) [1..<n])"
proof (cases n)
  case 0
  then show ?thesis by simp
next
  case (Suc m)
  have split: "[0..<Suc m] = 0 # [1..<Suc m]"
    by (simp add: upt_conv_Cons del: upt_Suc)
  have same: "map (\<lambda>k. if 0 < k \<and> P k then f k else []) [1..<Suc m] =
              map (\<lambda>k. if P k then f k else []) [1..<Suc m]"
    by (rule map_cong) auto
  have "concat (map (\<lambda>k. if 0 < k \<and> P k then f k else []) [0..<Suc m]) =
        concat (map (\<lambda>k. if 0 < k \<and> P k then f k else []) [1..<Suc m])"
    by (subst split) simp
  also have "\<dots> = concat (map (\<lambda>k. if P k then f k else []) [1..<Suc m])"
    by (simp only: same)
  finally show ?thesis using Suc by simp
qed

lemma group_values_nearest_values:
  "set (concat (snd (group_values_nearest xs c))) = set (near_members xs c)"
proof -
  let ?init = "\<lparr>il = [], ol = []\<rparr> :: 'a group_state"
  let ?s = "group_loop (sort xs) c [0..<length (sort xs)] ?init"
  have "set (concat (snd (group_values_nearest xs c))) = bucket_values ?s"
    by (simp add: group_values_nearest_def Let_def bucket_values_def)
  also have "\<dots> = bucket_values ?init \<union> set (near_members xs c)"
    unfolding near_members_def Let_def
    by (simp only: group_loop_values concat_map_skip_zero)
  also have "\<dots> = set (near_members xs c)"
    by (simp add: bucket_values_def)
  finally show ?thesis .
qed

lemma near_members_subset: "set (near_members xs c) \<subseteq> set xs"
proof
  fix x assume "x \<in> set (near_members xs c)"
  then obtain k where k: "1 \<le> k" "k < length (sort xs)"
      and x: "x = sort xs ! (k - 1) \<or> x = sort xs ! k"
    by (auto simp: near_members_def Let_def split: if_splits)
  then have "x \<in> set (sort xs)"
    by (metis less_imp_diff_less nth_mem)
  then show "x \<in> set xs" by simp
qed

lemma scan_inv_step:
  assumes srt: "sorted vs" and n: "n < length vs" and inv: "scan_inv vs c n s"
  shows "scan_inv vs c (Suc n) (group_step vs c n s)"
proof (cases "n = 0")
  case True
  with inv show ?thesis by (simp add: scan_inv_def group_step_def)
next
  case False
  then have pos: "0 < n" by simp
  have mono: "vs ! (n - 1) \<le> vs ! n"
    using srt n by (simp add: sorted_nth_mono)
  show ?thesis
  proof (cases "\<bar>vs ! n - vs ! (n - 1)\<bar> < c")
    case True
    then have cpos: "0 < c" by (metis abs_ge_zero le_less_trans)
    have step: "group_step vs c n s =
        s\<lparr>il := append_if_absent (vs ! n) (append_if_absent (vs ! (n - 1)) (il s))\<rparr>"
      using pos True by (simp add: group_step_def)
    have ol_lt': "\<forall>x \<in> set (concat (ol s)). x < vs ! (n - 1)"
      using inv unfolding scan_inv_def by blast
    have ol_lt: "\<forall>x \<in> set (concat (ol s)). x < vs ! n"
      using ol_lt' mono by (blast intro: less_le_trans)
    have il_le': "\<forall>x \<in> set (il s). x \<le> vs ! (n - 1)"
      using inv unfolding scan_inv_def by blast
    have il_le: "\<forall>x \<in> set (il s). x \<le> vs ! n"
      using il_le' mono by (blast intro: order_trans)
    have d1: "distinct (concat (ol s))" and d2: "distinct (il s)"
      and d3: "set (concat (ol s)) \<inter> set (il s) = {}"
      using inv by (auto simp: scan_inv_def)
    have "distinct (concat (ol s) @
            append_if_absent (vs ! n) (append_if_absent (vs ! (n - 1)) (il s)))"
      using d1 d2 d3 ol_lt ol_lt'
      by (auto simp: append_if_absent_distinct append_if_absent_set)
    moreover have "\<forall>x \<in> set (append_if_absent (vs ! n) (append_if_absent (vs ! (n - 1)) (il s))).
        x \<le> vs ! n"
      using il_le mono by (auto simp: append_if_absent_set)
    ultimately show ?thesis
      using ol_lt cpos by (simp add: scan_inv_def step)
  next
    case far: False
    have step: "group_step vs c n s = \<lparr>il = [], ol = ol s @ [il s]\<rparr>"
      using pos far by (simp add: group_step_def)
    have lt: "vs ! (n - 1) < vs ! n" if "bucket_values s \<noteq> {}"
    proof -
      have "0 < c" using inv that by (simp add: scan_inv_def)
      moreover have "c \<le> vs ! n - vs ! (n - 1)" using far mono by simp
      ultimately show ?thesis by simp
    qed
    have "\<forall>x \<in> set (concat (ol s @ [il s])). x < vs ! n"
    proof
      fix x assume x: "x \<in> set (concat (ol s @ [il s]))"
      then have "x \<in> bucket_values s" by (auto simp: bucket_values_def)
      then have ne: "bucket_values s \<noteq> {}" by blast
      from x have "x \<le> vs ! (n - 1)"
        using inv unfolding scan_inv_def by (auto intro: less_imp_le)
      with lt[OF ne] show "x < vs ! n" by simp
    qed
    moreover have "distinct (concat (ol s @ [il s]))"
      using inv by (simp add: scan_inv_def)
    moreover have "bucket_values \<lparr>il = [], ol = ol s @ [il s]\<rparr> = bucket_values s"
      by (simp add: bucket_values_def)
    ultimately show ?thesis
      using inv by (simp add: scan_inv_def step)
  qed
qed

lemma scan_inv_loop:
  assumes "sorted vs" and "n \<le> length vs"
  shows "scan_inv vs c n (group_loop vs c [0..<n] \<lparr>il = [], ol = []\<rparr>)"
  using assms(2)
proof (induction n)
  case 0
  show ?case by (simp add: group_loop_def scan_inv_def bucket_values_def)
next
  case (Suc n)
  then have "scan_inv vs c n (group_loop vs c [0..<n] \<lparr>il = [], ol = []\<rparr>)" by simp
  then have "scan_inv vs c (Suc n)
      (group_step vs c n (group_loop vs c [0..<n] \<lparr>il = [], ol = []\<rparr>))"
    using assms(1) Suc.prems by (intro scan_inv_step) simp_all
  then show ?case by (simp add: group_loop_def)
qed

lemma group_values_nearest_concat_distinct:
  "distinct (concat (snd (group_values_nearest xs c)))"
proof -
  have "scan_inv (sort xs) c (length (sort xs))
      (group_loop (sort xs) c [0..<length (sort xs)] \<lparr>il = [], ol = []\<rparr>)"
    by (rule scan_inv_loop) simp_all
  then show ?thesis
    by (simp add: group_values_nearest_def Let_def scan_inv_def)
qed

lemma group_values_nearest_short:
  "length xs \<le> 1 \<Longrightarrow> snd (group_values_nearest xs c) = [[]]"
  by (cases xs) (simp_all add: group_values_nearest_def group_loop_def group_step_def)

lemma group_values_nearest_example:
  "snd (group_values_nearest [1, 2, 10, 11, 20 :: int] 2) = [[1, 2], [10, 11], []]"
  by code_simp

lemma group_values_nearest_caller_list: "fst (group_values_nearest xs c) = sort xs"
  by (simp add: group_values_nearest_def Let_def)

section \<open>The claims about the grouper\<close>

text \<open>
  C6. The grouper returns one bucket more than there are adjacent pairs of the sorted
  input that are at least the threshold apart; an empty bucket closed by such a pair stays
  in the output; an input of at most one element gives the single empty bucket; and
  \<open>[1, 2, 10, 11, 20]\<close> with threshold \<open>2\<close> gives \<open>[[1, 2], [10, 11], []]\<close>.
\<close>

theorem bucket_count_far_transitions:
  "length (snd (group_values_nearest xs c)) = length (far_transitions xs c) + 1
   \<and> (length xs \<le> 1 \<longrightarrow> snd (group_values_nearest xs c) = [[]])
   \<and> snd (group_values_nearest [1, 2, 10, 11, 20 :: int] 2) = [[1, 2], [10, 11], []]"
  by (simp add: group_values_nearest_length group_values_nearest_short
      group_values_nearest_example)

theorem bucket_count_far_transitions_witness:
  "length [7 :: int] \<le> 1
   \<and> snd (group_values_nearest [7 :: int] 2) = [[]]
   \<and> length (snd (group_values_nearest [7 :: int] 2)) = length (far_transitions [7 :: int] 2) + 1"
  using bucket_count_far_transitions [of "[7 :: int]" 2] by (simp add: far_transitions_def)

text \<open>
  C7. Raising the closeness threshold never raises the number of buckets: for thresholds
  \<open>t1 \<le> t2\<close> the grouper returns at most as many buckets with \<open>t2\<close> as with \<open>t1\<close>.
\<close>

theorem bucket_count_antimono:
  "t1 \<le> t2 \<Longrightarrow>
   length (snd (group_values_nearest xs t2)) \<le> length (snd (group_values_nearest xs t1))"
  by (simp add: group_values_nearest_length far_transitions_antimono)

theorem bucket_count_antimono_witness:
  "(2 :: int) \<le> 9
   \<and> length (snd (group_values_nearest [1, 2, 10, 11, 20 :: int] 9))
       \<le> length (snd (group_values_nearest [1, 2, 10, 11, 20 :: int] 2))"
  using bucket_count_antimono [of "2 :: int" 9 "[1, 2, 10, 11, 20]"] by simp

text \<open>
  C10. Every bucket the grouper returns holds pairwise distinct values, so a value that
  occurs several times in the input counts once towards the size of its bucket: the size
  of a bucket is the number of different values in it, and at most the number of
  different values of the input.
\<close>

theorem buckets_hold_distinct_values:
  "\<forall>b \<in> set (snd (group_values_nearest xs c)).
     distinct b \<and> length b = card (set b) \<and> length b \<le> card (set xs)"
proof
  fix b assume b: "b \<in> set (snd (group_values_nearest xs c))"
  then have d: "distinct b" using group_values_nearest_distinct by blast
  have "set b \<subseteq> set (concat (snd (group_values_nearest xs c)))" using b by auto
  then have "set b \<subseteq> set xs"
    using group_values_nearest_values near_members_subset by blast
  then have "card (set b) \<le> card (set xs)" by (simp add: card_mono)
  with d show "distinct b \<and> length b = card (set b) \<and> length b \<le> card (set xs)"
    by (simp add: distinct_card)
qed

theorem buckets_hold_distinct_values_witness:
  "[1, 2, 3] \<in> set (snd (group_values_nearest [1, 1, 2, 2, 3 :: int] 2))
   \<and> distinct [1, 2, 3 :: int] \<and> length [1, 2, 3 :: int] \<le> card (set [1, 1, 2, 2, 3 :: int])"
proof -
  have mem: "[1, 2, 3] \<in> set (snd (group_values_nearest [1, 1, 2, 2, 3 :: int] 2))"
    by code_simp
  from buckets_hold_distinct_values [of "[1, 1, 2, 2, 3 :: int]" 2] mem
  have "distinct [1, 2, 3 :: int] \<and> length [1, 2, 3 :: int] = card (set [1, 2, 3 :: int])
        \<and> length [1, 2, 3 :: int] \<le> card (set [1, 1, 2, 2, 3 :: int])"
    by (rule bspec)
  with mem show ?thesis by blast
qed

text \<open>
  C2. The claim that the buckets hold every occurrence of every input value does not
  hold: \<open>[1, 2, 10, 11, 20]\<close> with threshold \<open>2\<close> loses \<open>20\<close>. What holds is that
  the buckets, read one after the other, hold each value at most once and hold exactly
  the values of the sorted input that are less than the threshold away from a
  neighbour in the sorted order; all of them are input values. A value without such a
  neighbour is in no bucket, and further occurrences of a value are dropped.
\<close>

theorem buckets_cover_near_members:
  "distinct (concat (snd (group_values_nearest xs c)))
   \<and> set (concat (snd (group_values_nearest xs c))) = set (near_members xs c)
   \<and> set (near_members xs c) \<subseteq> set xs"
  using group_values_nearest_concat_distinct [of xs c] group_values_nearest_values [of xs c]
    near_members_subset [of xs c]
  by blast

theorem buckets_cover_counterexample:
  "mset (concat (snd (group_values_nearest [1, 2, 10, 11, 20 :: int] 2))) \<noteq> mset [1, 2, 10, 11, 20]"
proof
  assume "mset (concat (snd (group_values_nearest [1, 2, 10, 11, 20 :: int] 2))) = mset [1, 2, 10, 11, 20]"
  then have "length (concat (snd (group_values_nearest [1, 2, 10, 11, 20 :: int] 2))) = length [1, 2, 10, 11, 20 :: int]"
    by (rule mset_eq_length)
  then show False by (simp add: group_values_nearest_example)
qed

text \<open>
  C3. The claim that the caller's list is unchanged does not hold: the list object
  passed in is sorted in place. After the call it is the ascending arrangement of the
  same elements, and it has its original order exactly when it was already ascending.
\<close>

theorem caller_list_sorted_in_place:
  "sorted (fst (group_values_nearest xs c))
   \<and> mset (fst (group_values_nearest xs c)) = mset xs
   \<and> (fst (group_values_nearest xs c) = xs \<longleftrightarrow> sorted xs)"
proof -
  have "sort xs = xs \<longleftrightarrow> sorted xs"
    by (metis sorted_sort sorted_sort_id)
  then show ?thesis by (simp add: group_values_nearest_caller_list)
qed

theorem caller_list_sorted_in_place_witness:
  "\<not> sorted [3, 1, 2 :: int] \<and> fst (group_values_nearest [3, 1, 2 :: int] 2) \<noteq> [3, 1, 2]
   \<and> sorted (fst (group_values_nearest [3, 1, 2 :: int] 2))"
  using caller_list_sorted_in_place [of "[3, 1, 2 :: int]" 2] by simp

theorem caller_list_counterexample:
  "fst (group_values_nearest [3, 1, 2 :: int] 2) \<noteq> [3, 1, 2]"
  by (simp add: group_values_nearest_caller_list)

section \<open>Threshold values that are not positive\<close>

lemma group_step_empty:
  "c \<le> 0 \<Longrightarrow> buckets_empty s \<Longrightarrow> buckets_empty (group_step vs c k s)"
proof -
  assume c: "c \<le> 0" and s: "buckets_empty s"
  have "\<not> \<bar>vs ! k - vs ! (k - 1)\<bar> < c"
    using c abs_ge_zero [of "vs ! k - vs ! (k - 1)"] by linarith
  then show ?thesis using s by (auto simp: group_step_def buckets_empty_def)
qed

lemma group_loop_empty:
  "c \<le> 0 \<Longrightarrow> buckets_empty s \<Longrightarrow> buckets_empty (group_loop vs c ks s)"
  unfolding group_loop_def
  by (induction ks arbitrary: s) (simp_all add: group_step_empty)

lemma group_values_nearest_nonpositive:
  assumes "c \<le> 0"
  shows "\<forall>b \<in> set (snd (group_values_nearest xs c)). b = []"
proof -
  have "buckets_empty (group_loop (sort xs) c [0..<length xs] \<lparr>il = [], ol = []\<rparr>)"
    using assms by (rule group_loop_empty) (simp add: buckets_empty_def)
  then show ?thesis
    by (auto simp: group_values_nearest_def Let_def buckets_empty_def)
qed

lemma far_transitions_nonpositive:
  assumes "c \<le> 0"
  shows "far_transitions xs c = [1..<length xs]"
proof -
  have "c \<le> \<bar>sort xs ! k - sort xs ! (k - 1)\<bar>" for k
    using assms abs_ge_zero [of "sort xs ! k - sort xs ! (k - 1)"] by linarith
  then show ?thesis by (simp add: far_transitions_def)
qed

lemma group_values_nearest_nonpositive_eq:
  assumes "c \<le> 0"
  shows "snd (group_values_nearest xs c) = replicate (max 1 (length xs)) []"
proof -
  have len: "length (snd (group_values_nearest xs c)) = max 1 (length xs)"
    using assms by (simp add: group_values_nearest_length far_transitions_nonpositive)
  have "replicate (length (snd (group_values_nearest xs c))) [] = snd (group_values_nearest xs c)"
    using group_values_nearest_nonpositive [OF assms] by (intro replicate_length_same) 
  with len show ?thesis by simp
qed

section \<open>Properties of peak detection and of the aggregator\<close>

lemma local_maxima_loop_done:
  "\<not> i < length x - 1 \<Longrightarrow> local_maxima_loop x i midpoints = midpoints"
  using local_maxima_loop.simps [of x i midpoints] by simp

lemma find_peaks_short: "length x \<le> 2 \<Longrightarrow> find_peaks x h = []"
proof -
  assume "length x \<le> 2"
  then have "\<not> 1 < length x - 1" by simp
  then have "local_maxima_loop x 1 [] = []" by (rule local_maxima_loop_done)
  then show ?thesis by (simp only: find_peaks_def filter.simps)
qed

lemma py_min_nonempty: "xs \<noteq> [] \<Longrightarrow> py_min xs = Inr (Min (set xs))"
proof (cases xs)
  case Nil
  assume "xs \<noteq> []"
  with Nil show ?thesis by simp
next
  case (Cons v vs)
  show ?thesis unfolding Cons by (simp only: py_min.simps Min.set_eq_fold)
qed

lemma direction_corrected_length [simp]:
  "length (direction_corrected values direction) = length values"
  by (simp add: direction_corrected_def)

lemma direction_corrected_empty [simp]:
  "direction_corrected values direction = [] \<longleftrightarrow> values = []"
  by (simp add: direction_corrected_def)

lemma peaks_detection_nonempty:
  "values \<noteq> [] \<Longrightarrow>
   peaks_detection values rounded direction =
     (let data = direction_corrected values direction;
          ps = find_peaks data (Min (set data))
      in if truthy rounded
         then Inr (Values (map (\<lambda>val. \<bar>py_round (data ! val) (the rounded)\<bar>) ps))
         else Inr (Indices ps))"
  by (simp add: peaks_detection_def py_min_nonempty truthy_def Let_def split: option.splits)

lemma peaks_detection_empty: "peaks_detection [] rounded direction = Inl ValueError"
  by (simp add: peaks_detection_def direction_corrected_def)

lemma peaks_detection_short:
  "values \<noteq> [] \<Longrightarrow> length values \<le> 2 \<Longrightarrow>
   peaks_detection values rounded direction =
     Inr (if truthy rounded then Values [] else Indices [])"
  by (simp add: peaks_detection_nonempty find_peaks_short Let_def)

lemma aggregate_step_eq:
  "aggregate_step T val result =
     Inr (if 3 \<le> length val then result @ [bucket_level T val] else result)"
  by (cases T)
     (auto simp: aggregate_step_def mean_def bucket_level_def arithmetic_mean_def Let_def)

lemma aggregate_loop_eq:
  "aggregate_loop T buckets result =
     Inr (result @ map (bucket_level T) (filter (\<lambda>b. 3 \<le> length b) buckets))"
  by (induction buckets arbitrary: result) (simp_all add: aggregate_step_eq)

lemma get_support_resistances_levels:
  "peaks_detection values (Some 3) direction = Inr (Values peaks) \<Longrightarrow>
   get_support_resistances T values direction closest =
     Inr (map (bucket_level T)
            (filter (\<lambda>b. 3 \<le> length b) (snd (group_values_nearest peaks closest))))"
  by (simp add: get_support_resistances_def peak_numbers_def aggregate_loop_eq)

lemma get_support_resistances_values:
  "peaks_detection values (Some 3) direction = Inr (Values peaks) \<Longrightarrow>
   get_support_resistances Float64 values direction closest =
     Inr (confirmed_levels (snd (group_values_nearest peaks closest)))"
  by (simp add: get_support_resistances_levels confirmed_levels_def bucket_level_def
      cong: map_cong)

lemma get_support_resistances_no_bucket:
  "peaks_detection values (Some 3) direction = Inr (Values peaks) \<Longrightarrow>
   \<forall>b \<in> set (snd (group_values_nearest peaks closest)). length b < 3 \<Longrightarrow>
   get_support_resistances T values direction closest = Inr []"
proof -
  assume pk: "peaks_detection values (Some 3) direction = Inr (Values peaks)"
    and small: "\<forall>b \<in> set (snd (group_values_nearest peaks closest)). length b < 3"
  have "filter (\<lambda>b. 3 \<le> length b) (snd (group_values_nearest peaks closest)) = []"
    using small by (auto simp: filter_empty_conv)
  then show ?thesis using get_support_resistances_levels [OF pk, of T closest] by simp
qed

lemma peaks_detection_default_values:
  "values \<noteq> [] \<Longrightarrow> \<exists>peaks. peaks_detection values (Some 3) direction = Inr (Values peaks)"
  by (simp add: peaks_detection_nonempty truthy_def Let_def)





























section \<open>Evaluations on concrete series\<close>

lemma scenario_min: "py_min [1, 3, 1, 4, 1, 5, 1, 4, 1, 5, 1, 3, 1 :: real] = Inr 1"
  by simp

lemma scenario_find_peaks:
  "find_peaks [1, 3, 1, 4, 1, 5, 1, 4, 1, 5, 1, 3, 1 :: real] 1 = [1, 3, 5, 7, 9, 11]"
  by code_simp

lemma py_round_integral: "0 \<le> n \<Longrightarrow> py_round (of_int z) n = of_int z"
proof -
  assume n: "0 \<le> n"
  have "(of_int z :: 'a) * 10 ^ nat n = of_int (z * 10 ^ nat n)" by simp
  then have "round_half_even ((of_int z :: 'a) * 10 ^ nat n) = z * 10 ^ nat n"
    by (simp only: round_half_even_def Let_def floor_of_int) simp
  then show ?thesis using n by (simp add: py_round_def)
qed

lemma scenario_peaks:
  "peaks_detection [1, 3, 1, 4, 1, 5, 1, 4, 1, 5, 1, 3, 1 :: real] (Some 3) ''up''
     = Inr (Values [3, 4, 5, 4, 5, 3])"
proof -
  have r: "py_round (3::real) 3 = 3" "py_round (4::real) 3 = 4" "py_round (5::real) 3 = 5"
    using py_round_integral [of 3 3, where 'a = real] py_round_integral [of 3 4, where 'a = real]
      py_round_integral [of 3 5, where 'a = real] by simp_all
  show ?thesis
    by (simp add: peaks_detection_def direction_corrected_def scenario_min
        scenario_find_peaks r)
qed

lemma scenario_groups:
  "group_values_nearest [3, 4, 5, 4, 5, 3 :: real] 1 = ([3, 3, 4, 4, 5, 5], [[3], [4], [5]])"
  by code_simp

lemma scenario_levels:
  "get_support_resistances T [1, 3, 1, 4, 1, 5, 1, 4, 1, 5, 1, 3, 1 :: real] ''up'' 1 = Inr []"
  by (rule get_support_resistances_no_bucket [OF scenario_peaks]) (simp add: scenario_groups)

lemma tens_find_peaks: "find_peaks [1, 34, 1 :: real] 1 = [1]"
  by code_simp

lemma tens_round: "py_round (34 :: real) (- 1) = 30"
  by (simp add: py_round_def round_half_even_def)

lemma tens_peaks: "peaks_detection [1, 34, 1 :: real] (Some (- 1)) ''up'' = Inr (Values [30])"
  by (simp add: peaks_detection_def direction_corrected_def tens_find_peaks tens_round)

lemma zero_threshold_groups: "snd (group_values_nearest [1, 2 :: real] 0) = [[], []]"
  by code_simp

lemma tens_default_peaks: "peaks_detection [1, 34, 1 :: real] (Some 3) ''up'' = Inr (Values [34])"
  using py_round_integral [of 3 34, where 'a = real]
  by (simp add: peaks_detection_def direction_corrected_def tens_find_peaks)

lemma zero_threshold_levels: "get_support_resistances T [1, 34, 1 :: real] ''up'' 0 = Inr []"
  by (rule get_support_resistances_no_bucket [OF tens_default_peaks])
     (simp add: group_values_nearest_short)

lemma truncation_find_peaks: "find_peaks [0, 3, 0, 4, 0, 6, 0 :: real] 0 = [1, 3, 5]"
  by code_simp

lemma truncation_peaks:
  "peaks_detection [0, 3, 0, 4, 0, 6, 0 :: real] (Some 3) ''up'' = Inr (Values [3, 4, 6])"
  using py_round_integral [of 3 3, where 'a = real] py_round_integral [of 3 4, where 'a = real]
    py_round_integral [of 3 6, where 'a = real]
  by (simp add: peaks_detection_def direction_corrected_def truncation_find_peaks)

lemma truncation_groups: "snd (group_values_nearest [3, 4, 6 :: real] 3) = [[3, 4, 6]]"
  by code_simp

lemma truncation_levels:
  "get_support_resistances Int64 [0, 3, 0, 4, 0, 6, 0 :: real] ''up'' 3 = Inr [4]"
  "get_support_resistances Float64 [0, 3, 0, 4, 0, 6, 0 :: real] ''up'' 3 = Inr [13 / 3]"
  by (simp_all add: get_support_resistances_levels [OF truncation_peaks] truncation_groups
      bucket_level_def arithmetic_mean_def py_int_def)

lemma level_find_peaks: "find_peaks [1, 3, 1, 4, 1, 7 / 2, 1 :: real] 1 = [1, 3, 5]"
  by code_simp

lemma level_round: "py_round (7 / 2 :: real) 3 = 7 / 2"
  by (simp add: py_round_def round_half_even_def)

lemma level_peaks:
  "peaks_detection [1, 3, 1, 4, 1, 7 / 2, 1 :: real] (Some 3) ''up'' = Inr (Values [3, 4, 7 / 2])"
  using py_round_integral [of 3 3, where 'a = real] py_round_integral [of 3 4, where 'a = real]
  by (simp add: peaks_detection_def direction_corrected_def level_find_peaks level_round)

lemma level_groups:
  "snd (group_values_nearest [3, 4, 7 / 2 :: real] 1) = [[3, 7 / 2, 4]]"
  by code_simp






section \<open>The claims about peak detection and the aggregator\<close>

text \<open>
  C4. A series of one or two elements has no peak: for every direction and every
  \<open>rounded\<close>, peak detection raises nothing and returns the empty result (an empty list
  of values when \<open>rounded\<close> is truthy, no positions otherwise).
\<close>

theorem short_series_no_peaks:
  "length values = 1 \<or> length values = 2 \<Longrightarrow>
   peaks_detection values rounded direction
     = Inr (if truthy rounded then Values [] else Indices [])"
proof -
  assume "length values = 1 \<or> length values = 2"
  then have "values \<noteq> []" "length values \<le> 2" by auto
  then show ?thesis by (rule peaks_detection_short)
qed

theorem short_series_no_peaks_witness:
  "length [5, 7 :: real] = 2
   \<and> peaks_detection [5, 7 :: real] (Some 3) ''down'' = Inr (Values [])
   \<and> peaks_detection [5, 7 :: real] (Some 0) ''up'' = Inr (Indices [])"
  using short_series_no_peaks [of "[5, 7 :: real]" "Some 3" "''down''"]
    short_series_no_peaks [of "[5, 7 :: real]" "Some 0" "''up''"]
  by (simp add: truthy_def)

text \<open>
  The empty series is outside C4: \<^verbatim>\<open>min(data)\<close> is evaluated before the peak search
  and raises \<^verbatim>\<open>ValueError\<close> on it.
\<close>

theorem empty_series_counterexample:
  "peaks_detection ([] :: real list) (Some 3) ''up'' = Inl ValueError"
  by (rule peaks_detection_empty)




text \<open>
  On a series of floating-point numbers the aggregator returns the arithmetic means of
  the buckets with at least three members, in bucket order, and the empty list when
  there is no such bucket; it raises nothing on a non-empty series.
\<close>

lemma levels_are_means_on_float_series:
  "values \<noteq> [] \<Longrightarrow>
   \<exists>peaks. peaks_detection values (Some 3) direction = Inr (Values peaks)
     \<and> get_support_resistances Float64 values direction closest
         = Inr (map arithmetic_mean
                  (filter (\<lambda>b. 3 \<le> length b) (snd (group_values_nearest peaks closest))))
     \<and> ((\<forall>b \<in> set (snd (group_values_nearest peaks closest)). length b < 3) \<longrightarrow>
          get_support_resistances T values direction closest = Inr [])
     \<and> get_resistances T values closest = get_support_resistances T values ''up'' closest
     \<and> get_supports T values closest = get_support_resistances T values ''down'' closest"
proof -
  assume "values \<noteq> []"
  then obtain peaks where pk: "peaks_detection values (Some 3) direction = Inr (Values peaks)"
    using peaks_detection_default_values by blast
  let ?buckets = "snd (group_values_nearest peaks closest)"
  have res: "get_support_resistances Float64 values direction closest
      = Inr (map arithmetic_mean (filter (\<lambda>b. 3 \<le> length b) ?buckets))"
    using get_support_resistances_values [OF pk] by (simp add: confirmed_levels_def)
  have none: "(\<forall>b \<in> set ?buckets. length b < 3) \<longrightarrow>
      get_support_resistances T values direction closest = Inr []"
    using get_support_resistances_no_bucket [OF pk] by blast
  from pk res none show ?thesis
    unfolding get_resistances_def get_supports_def by blast
qed

lemma levels_are_means_on_float_series_example:
  "get_support_resistances Float64 [1, 3, 1, 4, 1, 7 / 2, 1 :: real] ''up'' 1 = Inr [7 / 2]"
  by (simp add: get_support_resistances_values [OF level_peaks] level_groups
      confirmed_levels_def arithmetic_mean_def)

text \<open>
  C8. The aggregator is to return exactly the arithmetic means of the buckets with at
  least three members. On a series of integers it does not: the peaks of
  \<open>[0, 3, 0, 4, 0, 6, 0]\<close> are \<open>3, 4, 6\<close>, with threshold \<open>3\<close> they form the one
  bucket \<open>[3, 4, 6]\<close> whose mean is \<open>13 / 3\<close>, and the aggregator returns \<open>4\<close>, the
  mean converted back to the integer type of the elements. The same numbers held as
  floating-point values give \<open>13 / 3\<close>.
\<close>

theorem integer_series_mean_truncated:
  "get_support_resistances Int64 [0, 3, 0, 4, 0, 6, 0 :: real] ''up'' 3 = Inr [4]
   \<and> get_resistances Int64 [0, 3, 0, 4, 0, 6, 0 :: real] 3 = Inr [4]
   \<and> peaks_detection [0, 3, 0, 4, 0, 6, 0 :: real] (Some 3) ''up'' = Inr (Values [3, 4, 6])
   \<and> snd (group_values_nearest [3, 4, 6 :: real] 3) = [[3, 4, 6]]
   \<and> arithmetic_mean [3, 4, 6 :: real] = 13 / 3
   \<and> get_support_resistances Float64 [0, 3, 0, 4, 0, 6, 0 :: real] ''up'' 3 = Inr [13 / 3]"
  by (simp add: truncation_levels truncation_peaks truncation_groups get_resistances_def
      arithmetic_mean_def)

text \<open>
  C5. The claim that a threshold \<open>\<le> 0\<close> or a negative number of digits is rejected
  does not hold; the code checks neither. With a threshold \<open>\<le> 0\<close> the grouper returns
  empty buckets only, one per input value (one for the empty input), and the aggregator
  returns no level on a non-empty series. With a negative number of digits peak detection
  on a non-empty series returns the values rounded to tens, hundreds and so on.
\<close>

theorem nonpositive_parameters_accepted:
  "(closest \<le> 0 \<longrightarrow>
      snd (group_values_nearest xs closest) = replicate (max 1 (length xs)) [])
   \<and> (threshold \<le> 0 \<and> values \<noteq> [] \<longrightarrow>
        get_support_resistances T values direction threshold = Inr [])
   \<and> (n < 0 \<and> values \<noteq> [] \<longrightarrow>
        peaks_detection values (Some n) direction
          = Inr (Values (map (\<lambda>val. \<bar>py_round (direction_corrected values direction ! val) n\<bar>)
                   (find_peaks (direction_corrected values direction)
                      (Min (set (direction_corrected values direction)))))))"
proof (intro conjI impI)
  assume "closest \<le> 0"
  then show "snd (group_values_nearest xs closest) = replicate (max 1 (length xs)) []"
    by (rule group_values_nearest_nonpositive_eq)
next
  assume a: "threshold \<le> 0 \<and> values \<noteq> []"
  then obtain peaks where pk: "peaks_detection values (Some 3) direction = Inr (Values peaks)"
    using peaks_detection_default_values by blast
  have "\<forall>b \<in> set (snd (group_values_nearest peaks threshold)). length b < 3"
    using a group_values_nearest_nonpositive [of threshold peaks] by auto
  with pk show "get_support_resistances T values direction threshold = Inr []"
    by (rule get_support_resistances_no_bucket)
next
  assume "n < 0 \<and> values \<noteq> []"
  then show "peaks_detection values (Some n) direction
      = Inr (Values (map (\<lambda>val. \<bar>py_round (direction_corrected values direction ! val) n\<bar>)
               (find_peaks (direction_corrected values direction)
                  (Min (set (direction_corrected values direction))))))"
    by (simp add: peaks_detection_nonempty truthy_def Let_def)
qed

theorem nonpositive_parameters_accepted_witness:
  "(0 :: real) \<le> 0 \<and> (- 1 :: int) < 0 \<and> [1, 34, 1 :: real] \<noteq> []
   \<and> snd (group_values_nearest [1, 2 :: real] 0) = [[], []]
   \<and> get_support_resistances Int64 [1, 34, 1 :: real] ''up'' 0 = Inr []
   \<and> get_support_resistances Float64 [1, 34, 1 :: real] ''up'' 0 = Inr []
   \<and> peaks_detection [1, 34, 1 :: real] (Some (- 1)) ''up'' = Inr (Values [30])"
  using nonpositive_parameters_accepted
    [of "0 :: real" "[1, 2]" "0 :: real" "[1, 34, 1]" Int64 "''up''" "- 1"]
    nonpositive_parameters_accepted
    [of "0 :: real" "[1, 2]" "0 :: real" "[1, 34, 1]" Float64 "''up''" "- 1"]
  by (simp add: direction_corrected_def tens_find_peaks tens_round numeral_2_eq_2)

theorem nonpositive_parameters_counterexample:
  "snd (group_values_nearest [1, 2 :: real] 0) = [[], []]
   \<and> get_support_resistances Int64 [1, 34, 1 :: real] ''up'' 0 = Inr []
   \<and> get_support_resistances Float64 [1, 34, 1 :: real] ''up'' 0 = Inr []
   \<and> peaks_detection [1, 34, 1 :: real] (Some (- 1)) ''up'' = Inr (Values [30])"
  by (simp add: zero_threshold_groups zero_threshold_levels tens_peaks)

text \<open>
  C1. On the series \<open>[1,3,1,4,1,5,1,4,1,5,1,3,1]\<close> with direction up and threshold
  \<open>1\<close> the peaks are \<open>[3,4,5,4,5,3]\<close>, sorted \<open>[3,3,4,4,5,5]\<close>. Equal neighbours
  share a bucket, once; neighbours \<open>1\<close> apart are not less than the threshold apart.
  The buckets are \<open>[[3],[4],[5]]\<close>, none has three members, and no level is
  returned. The single bucket and the level \<open>4\<close> of the claim do not come out.
\<close>

theorem scenario_three_singleton_buckets:
  "peaks_detection [1, 3, 1, 4, 1, 5, 1, 4, 1, 5, 1, 3, 1 :: real] (Some 3) ''up''
     = Inr (Values [3, 4, 5, 4, 5, 3])
   \<and> group_values_nearest [3, 4, 5, 4, 5, 3 :: real] 1 = ([3, 3, 4, 4, 5, 5], [[3], [4], [5]])
   \<and> get_support_resistances T [1, 3, 1, 4, 1, 5, 1, 4, 1, 5, 1, 3, 1 :: real] ''up'' 1 = Inr []
   \<and> get_resistances T [1, 3, 1, 4, 1, 5, 1, 4, 1, 5, 1, 3, 1 :: real] 1 = Inr []"
  by (simp add: scenario_peaks scenario_groups scenario_levels get_resistances_def)

theorem scenario_counterexample:
  "snd (group_values_nearest [3, 4, 5, 4, 5, 3 :: real] 1) \<noteq> [[3, 3, 4, 4, 5, 5]]
   \<and> get_support_resistances Int64 [1, 3, 1, 4, 1, 5, 1, 4, 1, 5, 1, 3, 1 :: real] ''up'' 1
       \<noteq> Inr [4]
   \<and> get_support_resistances Float64 [1, 3, 1, 4, 1, 5, 1, 4, 1, 5, 1, 3, 1 :: real] ''up'' 1
       \<noteq> Inr [4]"
  by (simp add: scenario_groups scenario_levels)

end
